theory Spec2Isabelle
  imports Complex_Main "HOL-Library.AList"
begin

section \<open>Python values used by rss2irc\<close>

text \<open>
  The feed fields (\<open>link\<close>, \<open>title\<close>, \<open>category\<close>) and the command line options
  \<open>--handle\<close> and \<open>--cache\<close> are either a string or Python's \<open>None\<close>
  (\<open>entry.pop('link', None)\<close>, \<open>default=None\<close>). They are modelled as
  \<open>string option\<close>, \<open>None\<close> standing for Python's \<open>None\<close>.
\<close>

type_synonym pystr = "string option"

text \<open>Python truth value of such a value: \<open>None\<close> and the empty string are false.\<close>

fun truthy :: "pystr \<Rightarrow> bool" where
  "truthy None = False"
| "truthy (Some s) = (s \<noteq> [])"

text \<open>What \<open>'%s' % x\<close> renders: the string itself, and \<open>None\<close> as the text None.\<close>

fun py_str :: "pystr \<Rightarrow> string" where
  "py_str None = ''None''"
| "py_str (Some s) = s"

definition newline :: char where
  "newline = CHR 0x0A"

section \<open>format_message\<close>

text \<open>
  \<^verbatim>\<open>
  def format_message(url, msg_attrs, handle=None):
      if handle:
          if msg_attrs[1]:
              tag = '%s-%s' % (handle, msg_attrs[1])
          else:
              tag = '%s' % handle
          msg = '[%s] %s | %s\n' % (tag, msg_attrs[0], url)
      else:
          msg = '%s\n' % url
      return msg
  \<close>
  \<open>msg_attrs\<close> is the pair \<open>(title, category)\<close> stored by \<open>parse_news\<close>.
\<close>

definition format_message :: "pystr \<Rightarrow> pystr \<times> pystr \<Rightarrow> pystr \<Rightarrow> string" where
  "format_message url msg_attrs handle =
     (if truthy handle then
        (let tag = (if truthy (snd msg_attrs)
                    then py_str handle @ ''-'' @ py_str (snd msg_attrs)
                    else py_str handle)
         in ''['' @ tag @ ''] '' @ py_str (fst msg_attrs) @ '' | '' @ py_str url @ [newline])
      else py_str url @ [newline])"

section \<open>Exceptions and stored values\<close>

text \<open>
  The exceptions the modelled code can raise, and the two ways \<open>main\<close> stops early:
  \<open>sys.exit(n)\<close> and an uncaught exception.
\<close>

datatype exn = ValueError | TypeError | OverflowError | KeyError

datatype stop = SysExit int | Raise exn

text \<open>
  A cache file is a pickle, so a stored value can be any Python object. The values
  covered here: \<open>None\<close>, booleans, integers (unbounded, as Python's), finite floats (as
  the real number they denote), NaN, an infinity, strings and lists.
\<close>

datatype pyval =
    PyNone
  | PyBool bool
  | PyInt int
  | PyFloat real
  | PyNaN
  | PyInf
  | PyStr string
  | PyList "pyval list"

text \<open>\<open>int(x)\<close> of a float truncates towards zero.\<close>

definition py_trunc :: "real \<Rightarrow> int" where
  "py_trunc r = (if 0 \<le> r then \<lfloor>r\<rfloor> else \<lceil>r\<rceil>)"

text \<open>
  \<open>int(s)\<close> of a string in base 10, as CPython 2 reads it: white space, an optional sign,
  white space, at least one decimal digit, white space, and nothing else. Any other
  string raises \<open>ValueError\<close>.
\<close>

definition isspace :: "char \<Rightarrow> bool" where
  "isspace c = (c \<in> set [CHR 0x20, CHR 0x09, CHR 0x0A, CHR 0x0B, CHR 0x0C, CHR 0x0D])"

definition isdigit :: "char \<Rightarrow> bool" where
  "isdigit c = (c \<in> set ''0123456789'')"

definition digit_value :: "char \<Rightarrow> int" where
  "digit_value c = of_char c - 48"

definition int_of_str :: "string \<Rightarrow> int option" where
  "int_of_str s =
     (let s1 = dropWhile isspace s;
          neg = (case s1 of [] \<Rightarrow> False | c # _ \<Rightarrow> c = CHR ''-'');
          s2 = (case s1 of [] \<Rightarrow> [] | c # r \<Rightarrow> if c = CHR ''-'' \<or> c = CHR ''+'' then r else s1);
          s3 = dropWhile isspace s2;
          ds = takeWhile isdigit s3;
          rest = dropWhile isspace (dropWhile isdigit s3)
      in if ds = [] \<or> rest \<noteq> [] then None
         else Some ((if neg then - 1 else 1) * foldl (\<lambda>acc c. 10 * acc + digit_value c) 0 ds))"

text \<open>
  The builtin \<open>int(v)\<close>: a number converts, a string is parsed or raises \<open>ValueError\<close>,
  NaN raises \<open>ValueError\<close>, an infinity raises \<open>OverflowError\<close>, and \<open>None\<close> or a list
  raises \<open>TypeError\<close>.
\<close>

fun py_int :: "pyval \<Rightarrow> exn + int" where
  "py_int PyNone = Inl TypeError"
| "py_int (PyBool b) = Inr (if b then 1 else 0)"
| "py_int (PyInt i) = Inr i"
| "py_int (PyFloat r) = Inr (py_trunc r)"
| "py_int PyNaN = Inl ValueError"
| "py_int PyInf = Inl OverflowError"
| "py_int (PyStr s) = (case int_of_str s of None \<Rightarrow> Inl ValueError | Some i \<Rightarrow> Inr i)"
| "py_int (PyList vs) = Inl TypeError"

section \<open>Dictionaries, arguments and the environment\<close>

text \<open>
  A Python dict is an association list: \<open>d.keys()\<close> is \<open>map fst d\<close> (a list, in
  Python 2, so the loops below run over a snapshot of the keys), \<open>k in d\<close> is
  \<open>map_of d k \<noteq> None\<close>, \<open>d[k]\<close> is \<open>map_of d k\<close> and raises \<open>KeyError\<close> on \<open>None\<close>,
  \<open>d[k] = v\<close> is \<open>AList.update k v d\<close> and \<open>d.pop(k)\<close> removes the key with
  \<open>AList.delete k d\<close>. The keys of a dict are distinct. The order of the list
  stands for the order in which Python walks the dict. Python 2 takes that order from
  the hash table, not from the insertions, so what is stated below about a dict is
  stated through \<open>map_of\<close>, and no claim below rests on the order of the lines that
  one run writes.
\<close>

type_synonym cache = "(pystr \<times> pyval) list"

type_synonym news = "(pystr \<times> (pystr \<times> pystr)) list"

type_synonym files = "string \<rightharpoonup> string"

text \<open>One entry of a parsed feed, with the three fields \<open>parse_news\<close> pops.\<close>

record entry =
  link :: pystr
  title :: pystr
  category :: pystr

text \<open>The namespace returned by \<open>parse_args\<close>.\<close>

record args =
  args_verbosity :: bool
  args_rss_urls :: "string list"
  args_rss_http_timeout :: int
  args_handle :: pystr
  args_output :: string
  args_cache :: pystr
  args_cache_expiration :: int
  args_cache_init :: bool
  args_sleep :: int

text \<open>
  What the run gets from outside: the answer of \<open>requests.get\<close> for a url (\<open>None\<close>
  when it raises or the status is an error), the entries \<open>feedparser.parse\<close> finds, the
  pickle functions, the readings of \<open>time.time()\<close> (one in \<open>scrub_cache\<close>, one for each
  key found in the cache, one before the cache update), and whether the write of an
  entry's line raises \<open>ValueError\<close>: the alarm's handler raises it when the write
  stalls for five seconds.
\<close>

record env =
  http_get :: "string \<Rightarrow> int \<Rightarrow> string option"
  feed_parse :: "string \<Rightarrow> entry list"
  pickle_dump :: "cache \<Rightarrow> string"
  pickle_load :: "string \<Rightarrow> exn + cache"
  time_scrub :: real
  time_refresh :: "pystr \<Rightarrow> real"
  time_update :: real
  write_stalls :: "pystr \<Rightarrow> bool"

section \<open>get_rss and parse_news\<close>

definition get_rss :: "env \<Rightarrow> string \<Rightarrow> int \<Rightarrow> string option" where
  "get_rss ev url timeout = http_get ev url timeout"

text \<open>
  \<^verbatim>\<open>
  for entry in feed['entries']:
      link = entry.pop('link', None)
      title = entry.pop('title', None)
      if not 'link' and not 'title':
          continue
      category = entry.pop('category', None)
      news[link] = (title, category)
  \<close>
  The test is on the string literals \<open>'link'\<close> and \<open>'title'\<close>, not on the variables.
\<close>

fun parse_loop :: "entry list \<Rightarrow> news \<Rightarrow> news" where
  "parse_loop [] news = news"
| "parse_loop (e # entries) news =
     (if \<not> truthy (Some ''link'') \<and> \<not> truthy (Some ''title'')
      then parse_loop entries news
      else parse_loop entries (AList.update (link e) (title e, category e) news))"

definition parse_news :: "env \<Rightarrow> string \<Rightarrow> news \<Rightarrow> news" where
  "parse_news ev data news = parse_loop (feed_parse ev data) news"

section \<open>read_cache, scrub_cache and write_cache\<close>

definition read_cache :: "env \<Rightarrow> files \<Rightarrow> pystr \<Rightarrow> exn + cache" where
  "read_cache ev fs cache_file =
     (case cache_file of
        None \<Rightarrow> Inr []
      | Some path \<Rightarrow>
          if path = [] then Inr []
          else (case fs path of
                  None \<Rightarrow> Inr []
                | Some fhandle \<Rightarrow> pickle_load ev fhandle))"

text \<open>
  \<^verbatim>\<open>
  time_now = time.time()
  for key in cache.keys():
      try:
          expiration = int(cache[key])
      except ValueError:
          cache.pop(key)
          continue
      if expiration < time_now:
          cache.pop(key)
  \<close>
  Only \<open>ValueError\<close> is caught; any other exception of \<open>int\<close> leaves the function.
  Python compares an integer with a float exactly.
\<close>

fun scrub_loop :: "real \<Rightarrow> pystr list \<Rightarrow> cache \<Rightarrow> exn + cache" where
  "scrub_loop time_now [] cache = Inr cache"
| "scrub_loop time_now (key # keys) cache =
     (case map_of cache key of
        None \<Rightarrow> Inl KeyError
      | Some v \<Rightarrow>
          (case py_int v of
             Inl e \<Rightarrow>
               if e = ValueError then scrub_loop time_now keys (AList.delete key cache)
               else Inl e
           | Inr expiration \<Rightarrow>
               if real_of_int expiration < time_now
               then scrub_loop time_now keys (AList.delete key cache)
               else scrub_loop time_now keys cache))"

definition scrub_cache :: "real \<Rightarrow> cache \<Rightarrow> exn + cache" where
  "scrub_cache time_now cache = scrub_loop time_now (map fst cache) cache"

definition write_cache :: "env \<Rightarrow> cache \<Rightarrow> pystr \<Rightarrow> files \<Rightarrow> files" where
  "write_cache ev data cache_file fs =
     (case cache_file of
        None \<Rightarrow> fs
      | Some path \<Rightarrow> if path = [] then fs else fs(path \<mapsto> pickle_dump ev data))"

section \<open>write_data\<close>

text \<open>Appending to a file opened with mode \<open>'a'\<close>, which creates it when missing.\<close>

definition file_append :: "files \<Rightarrow> string \<Rightarrow> string \<Rightarrow> files" where
  "file_append fs path s = fs(path \<mapsto> (case fs path of None \<Rightarrow> [] | Some old \<Rightarrow> old) @ s)"

text \<open>
  \<^verbatim>\<open>
  for url in data.keys():
      msg = format_message(url, data[url], handle)
      signal.alarm(5)
      try:
          fhandle.write(msg.encode('utf-8'))
          signal.alarm(0)
          time.sleep(sleep)
      except ValueError:
          data.pop(url)
      signal.alarm(0)
  \<close>
  A stalled write leaves nothing of the line in the file and removes the entry from
  \<open>data\<close>, which is the dict \<open>news\<close> of \<open>main\<close>.
\<close>

fun write_loop :: "env \<Rightarrow> pystr \<Rightarrow> string \<Rightarrow> pystr list \<Rightarrow> news \<Rightarrow> files \<Rightarrow> exn + news \<times> files" where
  "write_loop ev hdl out [] data fs = Inr (data, fs)"
| "write_loop ev hdl out (url # urls) data fs =
     (case map_of data url of
        None \<Rightarrow> Inl KeyError
      | Some attrs \<Rightarrow>
          (let msg = format_message url attrs hdl
           in if write_stalls ev url
              then write_loop ev hdl out urls (AList.delete url data) fs
              else write_loop ev hdl out urls data (file_append fs out msg)))"

definition write_data :: "env \<Rightarrow> news \<Rightarrow> string \<Rightarrow> pystr \<Rightarrow> files \<Rightarrow> exn + news \<times> files" where
  "write_data ev data out hdl fs = write_loop ev hdl out (map fst data) data (file_append fs out [])"

section \<open>main\<close>

text \<open>
  \<^verbatim>\<open>
  for key in news.keys():
      if key in cache:
          cache[key] = int(time.time()) + args.cache_expiration
          news.pop(key)
  \<close>
\<close>

fun known_loop :: "env \<Rightarrow> int \<Rightarrow> pystr list \<Rightarrow> cache \<Rightarrow> news \<Rightarrow> exn + cache \<times> news" where
  "known_loop ev ttl [] cache news = Inr (cache, news)"
| "known_loop ev ttl (key # keys) cache news =
     (if map_of cache key \<noteq> None
      then (if map_of news key = None then Inl KeyError
            else known_loop ev ttl keys
                   (AList.update key (PyInt (py_trunc (time_refresh ev key) + ttl)) cache)
                   (AList.delete key news))
      else known_loop ev ttl keys cache news)"

text \<open>
  \<^verbatim>\<open>
  expiration = int(time.time()) + args.cache_expiration
  for key in news.keys():
      cache[key] = expiration
  \<close>
\<close>

fun update_loop :: "int \<Rightarrow> pystr list \<Rightarrow> cache \<Rightarrow> cache" where
  "update_loop expiration [] cache = cache"
| "update_loop expiration (key # keys) cache =
     update_loop expiration keys (AList.update key (PyInt expiration) cache)"

text \<open>
  Lines 96 to 107 of \<open>main\<close>: the loop over the known keys, the call of \<open>write_data\<close>
  unless \<open>--cache-init\<close> is given, and the cache update for the keys left in \<open>news\<close>.
  The result is the final \<open>news\<close>, the updated cache and the files.
\<close>

definition main_reconcile :: "env \<Rightarrow> args \<Rightarrow> news \<Rightarrow> cache \<Rightarrow> files \<Rightarrow> exn + news \<times> cache \<times> files" where
  "main_reconcile ev a news cache fs =
     (case known_loop ev (args_cache_expiration a) (map fst news) cache news of
        Inl e \<Rightarrow> Inl e
      | Inr (cache1, news1) \<Rightarrow>
          (case (if \<not> args_cache_init a
                 then write_data ev news1 (args_output a) (args_handle a) fs
                 else Inr (news1, fs)) of
             Inl e \<Rightarrow> Inl e
           | Inr (news2, fs2) \<Rightarrow>
               Inr (news2,
                    update_loop (py_trunc (time_update ev) + args_cache_expiration a)
                      (map fst news2) cache1,
                    fs2)))"

text \<open>The loop of \<open>main\<close> over \<open>args.rss_urls\<close>; no data, or empty data, exits with 1.\<close>

fun fetch_loop :: "env \<Rightarrow> int \<Rightarrow> string list \<Rightarrow> news \<Rightarrow> stop + news" where
  "fetch_loop ev timeout [] news = Inr news"
| "fetch_loop ev timeout (rss_url # rss_urls) news =
     (case get_rss ev rss_url timeout of
        None \<Rightarrow> Inl (SysExit 1)
      | Some data \<Rightarrow>
          if data = [] then Inl (SysExit 1)
          else fetch_loop ev timeout rss_urls (parse_news ev data news))"

definition main :: "env \<Rightarrow> args \<Rightarrow> files \<Rightarrow> stop + files" where
  "main ev a fs =
     (if args_cache_expiration a < 0 then Inl (SysExit 1)
      else if fs (args_output a) = None then Inl (SysExit 1)
      else (case fetch_loop ev (args_rss_http_timeout a) (args_rss_urls a) [] of
              Inl s \<Rightarrow> Inl s
            | Inr news \<Rightarrow>
                if news = [] then Inl (SysExit 0)
                else (case read_cache ev fs (args_cache a) of
                        Inl e \<Rightarrow> Inl (Raise e)
                      | Inr cache0 \<Rightarrow>
                          (case scrub_cache (time_scrub ev) cache0 of
                             Inl e \<Rightarrow> Inl (Raise e)
                           | Inr cache \<Rightarrow>
                               (case main_reconcile ev a news cache fs of
                                  Inl e \<Rightarrow> Inl (Raise e)
                                | Inr (news2, cache2, fs2) \<Rightarrow>
                                    Inr (write_cache ev cache2 (args_cache a) fs2))))))"

section \<open>Records that a scrub retains\<close>

text \<open>
  A stored value survives a scrub at \<open>time_now\<close> when \<open>int\<close> converts it and the
  expiration is not less than \<open>time_now\<close>; a key survives when its value does.
\<close>

definition keeps :: "real \<Rightarrow> pyval \<Rightarrow> bool" where
  "keeps time_now v =
     (case py_int v of Inl e \<Rightarrow> False | Inr expiration \<Rightarrow> \<not> real_of_int expiration < time_now)"

definition kept :: "real \<Rightarrow> cache \<Rightarrow> pystr \<Rightarrow> bool" where
  "kept time_now cache key =
     (case map_of cache key of None \<Rightarrow> False | Some v \<Rightarrow> keeps time_now v)"

section \<open>A concrete run\<close>

text \<open>
  The end-to-end scenario: one feed whose only entry is \<open>http://a\<close> with title
  \<open>Title A\<close> and category \<open>cat\<close>, every clock reading 1000, a time to live of 100,
  the handle \<open>bot\<close>. The flag of \<open>scenario_env\<close> says whether the writes stall, the
  flag of \<open>scenario_args\<close> is \<open>--cache-init\<close>. The pickle functions of the scenario
  tell the cache \<open>{http://a: 1100}\<close> from any other, which is all the scenario needs.
\<close>

definition scenario_env :: "bool \<Rightarrow> env" where
  "scenario_env stall =
     \<lparr>http_get = (\<lambda>url timeout. Some ''<rss/>''),
      feed_parse = (\<lambda>data. [\<lparr>link = Some ''http://a'', title = Some ''Title A'',
                               category = Some ''cat''\<rparr>]),
      pickle_dump = (\<lambda>data. if data = [(Some ''http://a'', PyInt 1100)] then ''1'' else ''0''),
      pickle_load = (\<lambda>s. if s = ''1'' then Inr [(Some ''http://a'', PyInt 1100)] else Inr []),
      time_scrub = 1000,
      time_refresh = (\<lambda>key. 1000),
      time_update = 1000,
      write_stalls = (\<lambda>url. stall)\<rparr>"

definition scenario_args :: "bool \<Rightarrow> args" where
  "scenario_args init =
     \<lparr>args_verbosity = False,
      args_rss_urls = [''http://feed''],
      args_rss_http_timeout = 30,
      args_handle = Some ''bot'',
      args_output = ''out'',
      args_cache = Some ''cache'',
      args_cache_expiration = 100,
      args_cache_init = init,
      args_sleep = 2\<rparr>"

section \<open>Association lists\<close>

lemma map_of_filter_key:
  "map_of (filter (\<lambda>kv. P (fst kv)) xs) k = (if P k then map_of xs k else None)"
  by (induction xs) auto

lemma keys_filter_key:
  "k \<in> fst ` set (filter (\<lambda>kv. P (fst kv)) xs) \<longleftrightarrow> P k \<and> k \<in> fst ` set xs"
  by (induction xs) auto

lemma key_of_map_of: "map_of xs k = Some v \<Longrightarrow> k \<in> fst ` set xs"
  by (induction xs) (auto split: if_splits)

lemma map_of_key_notNone: "k \<in> fst ` set xs \<Longrightarrow> map_of xs k \<noteq> None"
  by (induction xs) auto

lemma map_of_filter_keys_notNone:
  "\<forall>u \<in> set (map fst xs). map_of xs u \<noteq> None"
  by (induction xs) auto

section \<open>Output line format\<close>

text \<open>
  Claim C9. With a handle configured (a non-empty string; Python tests \<open>if handle\<close>) the
  line is \<open>[<handle>-<category>] <title> | <url>\<close> plus a newline when the category is
  present (a non-empty string), and \<open>[<handle>] <title> | <url>\<close> plus a newline
  otherwise. With no handle (\<open>None\<close>, or the empty string, which Python also takes as
  false) the line is the url and a newline. Title and url are rendered by \<open>%s\<close>.
\<close>

theorem format_message_line:
  "(h \<noteq> [] \<and> c \<noteq> [] \<longrightarrow>
      format_message url (t, Some c) (Some h)
        = ''['' @ h @ ''-'' @ c @ ''] '' @ py_str t @ '' | '' @ py_str url @ [newline])
   \<and> (h \<noteq> [] \<and> \<not> truthy cat \<longrightarrow>
      format_message url (t, cat) (Some h)
        = ''['' @ h @ ''] '' @ py_str t @ '' | '' @ py_str url @ [newline])
   \<and> (\<not> truthy hdl \<longrightarrow> format_message url attrs hdl = py_str url @ [newline])"
  by (simp add: format_message_def)

theorem format_message_line_witness:
  "format_message (Some ''http://a'') (Some ''Title A'', Some ''cat'') (Some ''bot'')
     = ''[bot-cat] Title A | http://a'' @ [newline]
   \<and> format_message (Some ''http://a'') (Some ''Title A'', None) (Some ''bot'')
     = ''[bot] Title A | http://a'' @ [newline]
   \<and> format_message (Some ''http://a'') (Some ''Title A'', Some ''cat'') None
     = ''http://a'' @ [newline]"
  using format_message_line [of "''bot''" "''cat''" "Some ''http://a''" "Some ''Title A''" None
      None "(Some ''Title A'', Some ''cat'')"]
  by simp

text \<open>
  Claim C10. An empty-string category is formatted exactly like an absent one: for every
  url, title and non-empty handle the line is \<open>[<handle>] <title> | <url>\<close> plus a
  newline, with no dash and no category in the tag.
\<close>

theorem format_message_empty_category:
  "h \<noteq> [] \<Longrightarrow>
     format_message (Some u) (Some t, Some []) (Some h)
       = ''['' @ h @ ''] '' @ t @ '' | '' @ u @ [newline]
     \<and> format_message (Some u) (Some t, Some []) (Some h)
       = format_message (Some u) (Some t, None) (Some h)"
  by (simp add: format_message_def)

theorem format_message_empty_category_witness:
  "''bot'' \<noteq> [] \<and>
   format_message (Some ''http://a'') (Some ''Title A'', Some []) (Some ''bot'')
     = ''[bot] Title A | http://a'' @ [newline]"
  using format_message_empty_category [of "''bot''" "''http://a''" "''Title A''"]
  by simp

section \<open>Scrub\<close>

subsection \<open>The result of a scrub that returns\<close>

lemma kept_delete: "k \<noteq> key \<Longrightarrow> kept now (AList.delete key cache) k = kept now cache k"
  by (simp add: kept_def)

lemma filter_delete_step:
  assumes "\<not> kept now cache key"
  shows "filter (\<lambda>kv. fst kv \<in> set ks \<longrightarrow> kept now (AList.delete key cache) (fst kv)) (AList.delete key cache)
       = filter (\<lambda>kv. fst kv \<in> set (key # ks) \<longrightarrow> kept now cache (fst kv)) cache"
proof -
  have "filter (\<lambda>kv. fst kv \<in> set ks \<longrightarrow> kept now (AList.delete key cache) (fst kv)) (AList.delete key cache)
      = filter (\<lambda>kv. fst kv \<noteq> key \<and> (fst kv \<in> set ks \<longrightarrow> kept now (AList.delete key cache) (fst kv))) cache"
    unfolding AList.delete_eq filter_filter by (intro filter_cong refl) auto
  also have "\<dots> = filter (\<lambda>kv. fst kv \<in> set (key # ks) \<longrightarrow> kept now cache (fst kv)) cache"
    using assms by (intro filter_cong refl) (auto simp: kept_delete)
  finally show ?thesis .
qed

lemma filter_keep_step:
  assumes "kept now cache key"
  shows "filter (\<lambda>kv. fst kv \<in> set ks \<longrightarrow> kept now cache (fst kv)) cache
       = filter (\<lambda>kv. fst kv \<in> set (key # ks) \<longrightarrow> kept now cache (fst kv)) cache"
  using assms by (intro filter_cong refl) auto

lemma scrub_loop_filter:
  "scrub_loop now ks cache = Inr cache' \<Longrightarrow>
   cache' = filter (\<lambda>kv. fst kv \<in> set ks \<longrightarrow> kept now cache (fst kv)) cache"
proof (induction ks arbitrary: cache)
  case Nil
  then show ?case by simp
next
  case (Cons key ks)
  from Cons.prems obtain v where v: "map_of cache key = Some v"
    by (auto split: option.splits)
  show ?case
  proof (cases "keeps now v")
    case True
    then obtain e where e: "py_int v = Inr e" "\<not> real_of_int e < now"
      by (auto simp: keeps_def split: sum.splits)
    with v Cons.prems have "scrub_loop now ks cache = Inr cache'" by simp
    from Cons.IH [OF this] have "cache' = filter (\<lambda>kv. fst kv \<in> set ks \<longrightarrow> kept now cache (fst kv)) cache" .
    also have "\<dots> = filter (\<lambda>kv. fst kv \<in> set (key # ks) \<longrightarrow> kept now cache (fst kv)) cache"
    proof (rule filter_keep_step)
      show "kept now cache key" using v True by (simp add: kept_def)
    qed
    finally show ?thesis .
  next
    case False
    with v Cons.prems have "scrub_loop now ks (AList.delete key cache) = Inr cache'"
      by (auto simp: keeps_def split: sum.splits if_splits)
    from Cons.IH [OF this]
    have "cache' = filter (\<lambda>kv. fst kv \<in> set ks \<longrightarrow> kept now (AList.delete key cache) (fst kv)) (AList.delete key cache)" .
    also have "\<dots> = filter (\<lambda>kv. fst kv \<in> set (key # ks) \<longrightarrow> kept now cache (fst kv)) cache"
    proof (rule filter_delete_step)
      show "\<not> kept now cache key" using v False by (simp add: kept_def)
    qed
    finally show ?thesis .
  qed
qed

lemma scrub_cache_filter:
  assumes "scrub_cache now cache = Inr cache'"
  shows "cache' = filter (\<lambda>kv. kept now cache (fst kv)) cache"
proof -
  have "cache' = filter (\<lambda>kv. fst kv \<in> set (map fst cache) \<longrightarrow> kept now cache (fst kv)) cache"
    using assms unfolding scrub_cache_def by (rule scrub_loop_filter)
  also have "\<dots> = filter (\<lambda>kv. kept now cache (fst kv)) cache"
    by (intro filter_cong refl) auto
  finally show ?thesis .
qed

lemma scrub_loop_fixed:
  "\<forall>k \<in> set ks. kept now cache k \<Longrightarrow> scrub_loop now ks cache = Inr cache"
  by (induction ks) (auto simp: kept_def keeps_def split: option.splits sum.splits)

subsection \<open>When a scrub returns\<close>

text \<open>
  On a dict in which \<open>int\<close> raises nothing but \<open>ValueError\<close>, \<open>scrub_cache\<close> returns.
\<close>

lemma scrub_loop_returns:
  assumes "distinct ks"
    and "set ks \<subseteq> fst ` set cache"
    and "\<forall>v \<in> snd ` set cache. \<forall>e. py_int v = Inl e \<longrightarrow> e = ValueError"
  shows "\<exists>cache'. scrub_loop now ks cache = Inr cache'"
  using assms
proof (induction ks arbitrary: cache)
  case Nil
  then show ?case by simp
next
  case (Cons key ks)
  from Cons.prems(2) obtain v where v: "map_of cache key = Some v"
    using map_of_key_notNone [of key cache] by auto
  then have "v \<in> snd ` set cache"
    by (metis map_of_SomeD snd_conv image_eqI)
  with Cons.prems(3) have safe: "\<forall>e. py_int v = Inl e \<longrightarrow> e = ValueError" by blast
  have d: "distinct ks" and key_notin: "key \<notin> set ks" using Cons.prems(1) by simp_all
  have keep: "\<exists>cache'. scrub_loop now ks cache = Inr cache'"
    using Cons.IH [OF d _ Cons.prems(3)] Cons.prems(2) by simp
  have "fst ` set (AList.delete key cache) = fst ` set cache - {key}"
    by (force simp: AList.delete_eq)
  then have "set ks \<subseteq> fst ` set (AList.delete key cache)"
    using Cons.prems(2) key_notin by auto
  moreover have "\<forall>v \<in> snd ` set (AList.delete key cache). \<forall>e. py_int v = Inl e \<longrightarrow> e = ValueError"
    using Cons.prems(3) by (auto simp: AList.delete_eq)
  ultimately have drop: "\<exists>cache'. scrub_loop now ks (AList.delete key cache) = Inr cache'"
    using Cons.IH [OF d] by blast
  show ?case
    using v safe keep drop by (cases "py_int v") auto
qed

lemma scrub_cache_returns:
  assumes "distinct (map fst cache)"
    and "\<forall>v \<in> snd ` set cache. \<forall>e. py_int v = Inl e \<longrightarrow> e = ValueError"
  shows "\<exists>cache'. scrub_cache now cache = Inr cache'"
  unfolding scrub_cache_def using assms by (intro scrub_loop_returns) auto

subsection \<open>Expiration boundary\<close>

text \<open>
  Claim C2. When \<open>scrub_cache\<close> returns, a record whose value \<open>int\<close> converts to an
  expiration is removed if and only if the expiration is strictly less than
  \<open>time_now\<close>, and a record that is not removed keeps the value it had. So a record
  with expiration equal to \<open>time_now\<close> stays, and one with \<open>time_now - 1\<close> goes.
\<close>

theorem scrub_cache_boundary:
  assumes "scrub_cache now cache = Inr cache'"
    and "map_of cache key = Some v"
    and "py_int v = Inr expiration"
  shows "(map_of cache' key = None \<longleftrightarrow> real_of_int expiration < now)
       \<and> (\<not> real_of_int expiration < now \<longrightarrow> map_of cache' key = Some v)"
proof -
  have "cache' = filter (\<lambda>kv. kept now cache (fst kv)) cache"
    using assms(1) by (rule scrub_cache_filter)
  then have "map_of cache' key = (if kept now cache key then map_of cache key else None)"
    by (simp add: map_of_filter_key)
  moreover have "kept now cache key \<longleftrightarrow> \<not> real_of_int expiration < now"
    using assms(2,3) by (simp add: kept_def keeps_def)
  ultimately show ?thesis using assms(2) by simp
qed

theorem scrub_cache_boundary_witness:
  "scrub_cache 1000 [(Some ''u1'', PyInt 1000), (Some ''u2'', PyInt 999)]
     = Inr [(Some ''u1'', PyInt 1000)]
   \<and> map_of [(Some ''u1'', PyInt 1000), (Some ''u2'', PyInt 999)] (Some ''u2'') = Some (PyInt 999)
   \<and> py_int (PyInt 999) = Inr 999
   \<and> real_of_int 999 < 1000
   \<and> map_of [(Some ''u1'', PyInt 1000)] (Some ''u2'') = None
   \<and> map_of [(Some ''u1'', PyInt 1000)] (Some ''u1'') = Some (PyInt 1000)"
proof -
  have run: "scrub_cache 1000 [(Some ''u1'', PyInt 1000), (Some ''u2'', PyInt 999)]
               = Inr [(Some ''u1'', PyInt 1000)]"
    by (simp add: scrub_cache_def)
  have look: "map_of [(Some ''u1'', PyInt 1000), (Some ''u2'', PyInt 999)] (Some ''u2'')
               = Some (PyInt 999)"
    by simp
  have conv: "py_int (PyInt 999) = Inr 999"
    by simp
  show ?thesis
    using scrub_cache_boundary [OF run look conv] run by simp
qed

subsection \<open>Idempotence\<close>

text \<open>
  Claim C4. Scrubbing the result of a scrub at the same \<open>time_now\<close> returns it
  unchanged: if \<open>scrub_cache\<close> returns \<open>cache'\<close> for \<open>cache\<close>, it returns \<open>cache'\<close>
  for \<open>cache'\<close>.
\<close>

theorem scrub_cache_idempotent:
  assumes "scrub_cache now cache = Inr cache'"
  shows "scrub_cache now cache' = Inr cache'"
proof -
  have c': "cache' = filter (\<lambda>kv. kept now cache (fst kv)) cache"
    using assms by (rule scrub_cache_filter)
  have "kept now cache' k" if "k \<in> set (map fst cache')" for k
  proof -
    from that have "kept now cache k" using c' by auto
    moreover have "map_of cache' k = (if kept now cache k then map_of cache k else None)"
      unfolding c' by (rule map_of_filter_key)
    ultimately show ?thesis by (simp add: kept_def)
  qed
  then show ?thesis unfolding scrub_cache_def by (intro scrub_loop_fixed) blast
qed

theorem scrub_cache_idempotent_witness:
  "scrub_cache 1000 [(Some ''u1'', PyInt 2000), (Some ''u2'', PyInt 5), (Some ''u3'', PyStr ''abc'')]
     = Inr [(Some ''u1'', PyInt 2000)]
   \<and> scrub_cache 1000 [(Some ''u1'', PyInt 2000)] = Inr [(Some ''u1'', PyInt 2000)]"
proof -
  have run: "scrub_cache 1000
               [(Some ''u1'', PyInt 2000), (Some ''u2'', PyInt 5), (Some ''u3'', PyStr ''abc'')]
             = Inr [(Some ''u1'', PyInt 2000)]"
    by (simp add: scrub_cache_def int_of_str_def isspace_def isdigit_def)
  show ?thesis
    using scrub_cache_idempotent [OF run] run by simp
qed

subsection \<open>Values that int rejects with another exception\<close>

text \<open>
  Claim C3. The handler of \<open>scrub_cache\<close> catches \<open>ValueError\<close> only. A record whose
  value is \<open>None\<close> makes \<open>int\<close> raise \<open>TypeError\<close>, which leaves \<open>scrub_cache\<close>: the
  snapshot with one well-formed record and one record holding \<open>None\<close> does not scrub
  to the well-formed record, the call raises.
\<close>

theorem scrub_cache_none_value_raises:
  "scrub_cache 1000 [(Some ''u1'', PyInt 2000), (Some ''u2'', PyNone)] = Inl TypeError"
  by (simp add: scrub_cache_def)

section \<open>Reconciliation in main\<close>

subsection \<open>The three loops in closed form\<close>

lemma map_of_update_loop:
  "map_of (update_loop expiration ks cache) k
     = (if k \<in> set ks then Some (PyInt expiration) else map_of cache k)"
  by (induction ks arbitrary: cache) (auto simp: update_conv')

lemma map_of_fold_update:
  "map_of (fold (\<lambda>k. AList.update k (f k)) ks cache) k
     = (if k \<in> set ks then Some (f k) else map_of cache k)"
  by (induction ks arbitrary: cache) (auto simp: update_conv')

lemma known_loop_result:
  assumes "distinct ks" and "\<forall>k \<in> set ks. map_of news k \<noteq> None"
  shows "known_loop ev ttl ks cache news
           = Inr (fold (\<lambda>k. AList.update k (PyInt (py_trunc (time_refresh ev k) + ttl)))
                       (filter (\<lambda>k. map_of cache k \<noteq> None) ks) cache,
                  filter (\<lambda>kv. \<not> (fst kv \<in> set ks \<and> map_of cache (fst kv) \<noteq> None)) news)"
  using assms
proof (induction ks arbitrary: cache news)
  case Nil
  then show ?case by simp
next
  case (Cons key ks)
  have key_notin: "key \<notin> set ks" and d: "distinct ks" using Cons.prems by simp_all
  show ?case
  proof (cases "map_of cache key = None")
    case True
    have f: "filter (\<lambda>kv. \<not> (fst kv \<in> set ks \<and> map_of cache (fst kv) \<noteq> None)) news
        = filter (\<lambda>kv. \<not> (fst kv \<in> set (key # ks) \<and> map_of cache (fst kv) \<noteq> None)) news"
      using True by (intro filter_cong refl) auto
    have pres: "\<forall>k \<in> set ks. map_of news k \<noteq> None" using Cons.prems by simp
    have step: "known_loop ev ttl (key # ks) cache news = known_loop ev ttl ks cache news"
      using True by simp
    show ?thesis
      unfolding step Cons.IH [OF d pres] f using True by simp
  next
    case False
    define cache' where "cache' = AList.update key (PyInt (py_trunc (time_refresh ev key) + ttl)) cache"
    define news' where "news' = AList.delete key news"
    have in_news: "map_of news key \<noteq> None" using Cons.prems by simp
    have step: "known_loop ev ttl (key # ks) cache news = known_loop ev ttl ks cache' news'"
      using False in_news by (auto simp: cache'_def news'_def)
    have pres: "\<forall>k \<in> set ks. map_of news' k \<noteq> None"
      using Cons.prems key_notin by (auto simp: news'_def delete_conv')
    have dom: "map_of cache' k = None \<longleftrightarrow> map_of cache k = None" for k
      using False by (auto simp: cache'_def update_conv')
    have f: "filter (\<lambda>kv. \<not> (fst kv \<in> set ks \<and> map_of cache' (fst kv) \<noteq> None)) news'
        = filter (\<lambda>kv. \<not> (fst kv \<in> set (key # ks) \<and> map_of cache (fst kv) \<noteq> None)) news"
      unfolding news'_def AList.delete_eq filter_filter
      using False by (intro filter_cong refl) (auto simp: dom)
    have g: "filter (\<lambda>k. map_of cache' k \<noteq> None) ks = filter (\<lambda>k. map_of cache k \<noteq> None) ks"
      by (simp add: dom)
    show ?thesis
      unfolding step Cons.IH [OF d pres] f g using False by (simp add: cache'_def)
  qed
qed

lemma file_append_twice:
  "file_append (file_append fs out a) out b = file_append fs out (a @ b)"
  by (simp add: file_append_def)

lemma write_loop_result:
  assumes "distinct urls" and "\<forall>u \<in> set urls. map_of data u \<noteq> None"
  shows "write_loop ev hdl out urls data (file_append fs out acc)
     = Inr (filter (\<lambda>kv. \<not> (fst kv \<in> set urls \<and> write_stalls ev (fst kv))) data,
            file_append fs out
              (acc @ concat (map (\<lambda>u. format_message u (the (map_of data u)) hdl)
                                 (filter (\<lambda>u. \<not> write_stalls ev u) urls))))"
  using assms
proof (induction urls arbitrary: data acc)
  case Nil
  then show ?case by simp
next
  case (Cons url urls)
  from Cons.prems obtain attrs where attrs: "map_of data url = Some attrs" by auto
  have url_notin: "url \<notin> set urls" and d: "distinct urls" using Cons.prems by simp_all
  show ?case
  proof (cases "write_stalls ev url")
    case True
    define data' where "data' = AList.delete url data"
    have same: "\<forall>u \<in> set urls. map_of data' u = map_of data u"
      using url_notin by (auto simp: data'_def delete_conv')
    then have pres: "\<forall>u \<in> set urls. map_of data' u \<noteq> None" using Cons.prems by simp
    have step: "write_loop ev hdl out (url # urls) data (file_append fs out acc)
              = write_loop ev hdl out urls data' (file_append fs out acc)"
      using attrs True by (simp add: data'_def)
    have f: "filter (\<lambda>kv. \<not> (fst kv \<in> set urls \<and> write_stalls ev (fst kv))) data'
           = filter (\<lambda>kv. \<not> (fst kv \<in> set (url # urls) \<and> write_stalls ev (fst kv))) data"
      unfolding data'_def AList.delete_eq filter_filter
      using True by (intro filter_cong refl) auto
    have m: "map (\<lambda>u. format_message u (the (map_of data' u)) hdl) (filter (\<lambda>u. \<not> write_stalls ev u) urls)
           = map (\<lambda>u. format_message u (the (map_of data u)) hdl) (filter (\<lambda>u. \<not> write_stalls ev u) (url # urls))"
      using True same by (auto intro!: map_cong)
    show ?thesis
      unfolding step Cons.IH [OF d pres] f m ..
  next
    case False
    have pres: "\<forall>u \<in> set urls. map_of data u \<noteq> None" using Cons.prems by simp
    have step: "write_loop ev hdl out (url # urls) data (file_append fs out acc)
              = write_loop ev hdl out urls data (file_append fs out (acc @ format_message url attrs hdl))"
      using attrs False by (simp add: file_append_twice)
    have f: "filter (\<lambda>kv. \<not> (fst kv \<in> set urls \<and> write_stalls ev (fst kv))) data
           = filter (\<lambda>kv. \<not> (fst kv \<in> set (url # urls) \<and> write_stalls ev (fst kv))) data"
      using False by (intro filter_cong refl) auto
    have m: "(acc @ format_message url attrs hdl)
               @ concat (map (\<lambda>u. format_message u (the (map_of data u)) hdl) (filter (\<lambda>u. \<not> write_stalls ev u) urls))
           = acc @ concat (map (\<lambda>u. format_message u (the (map_of data u)) hdl) (filter (\<lambda>u. \<not> write_stalls ev u) (url # urls)))"
      using False attrs by simp
    show ?thesis
      unfolding step Cons.IH [OF d pres] f m ..
  qed
qed


lemma main_reconcile_result:
  fixes news :: news and cache :: cache and ev :: env and a :: args
  assumes "distinct (map fst news)"
  defines "news1 \<equiv> filter (\<lambda>kv. map_of cache (fst kv) = None) news"
  defines "cache1 \<equiv> fold (\<lambda>k. AList.update k (PyInt (py_trunc (time_refresh ev k) + args_cache_expiration a)))
                        (filter (\<lambda>k. map_of cache k \<noteq> None) (map fst news)) cache"
  defines "news2 \<equiv> (if args_cache_init a then news1
                     else filter (\<lambda>kv. \<not> write_stalls ev (fst kv)) news1)"
  shows "known_loop ev (args_cache_expiration a) (map fst news) cache news = Inr (cache1, news1)"
    and "main_reconcile ev a news cache fs
         = Inr (news2,
                update_loop (py_trunc (time_update ev) + args_cache_expiration a) (map fst news2) cache1,
                if args_cache_init a then fs
                else file_append fs (args_output a)
                       (concat (map (\<lambda>u. format_message u (the (map_of news1 u)) (args_handle a))
                                    (filter (\<lambda>u. \<not> write_stalls ev u) (map fst news1)))))"
proof -
  have "filter (\<lambda>kv. \<not> (fst kv \<in> set (map fst news) \<and> map_of cache (fst kv) \<noteq> None)) news = news1"
    unfolding news1_def by (intro filter_cong refl) auto
  then show known: "known_loop ev (args_cache_expiration a) (map fst news) cache news = Inr (cache1, news1)"
    using known_loop_result [OF assms(1) map_of_filter_keys_notNone, of ev "args_cache_expiration a" cache]
    by (simp add: cache1_def)
  have d1: "distinct (map fst news1)"
    unfolding news1_def using assms(1) by (rule distinct_map_filter)
  have "filter (\<lambda>kv. \<not> (fst kv \<in> set (map fst news1) \<and> write_stalls ev (fst kv))) news1
      = filter (\<lambda>kv. \<not> write_stalls ev (fst kv)) news1"
    by (intro filter_cong refl) auto
  then have wd: "write_data ev news1 (args_output a) (args_handle a) fs
      = Inr (filter (\<lambda>kv. \<not> write_stalls ev (fst kv)) news1,
             file_append fs (args_output a)
               (concat (map (\<lambda>u. format_message u (the (map_of news1 u)) (args_handle a))
                            (filter (\<lambda>u. \<not> write_stalls ev u) (map fst news1)))))"
    using write_loop_result [OF d1 map_of_filter_keys_notNone, of ev "args_handle a" "args_output a" fs "[]"]
    by (simp add: write_data_def)
  show "main_reconcile ev a news cache fs
         = Inr (news2,
                update_loop (py_trunc (time_update ev) + args_cache_expiration a) (map fst news2) cache1,
                if args_cache_init a then fs
                else file_append fs (args_output a)
                       (concat (map (\<lambda>u. format_message u (the (map_of news1 u)) (args_handle a))
                                    (filter (\<lambda>u. \<not> write_stalls ev u) (map fst news1)))))"
    unfolding main_reconcile_def known by (simp add: wd news2_def)
qed

lemmas scenario_simps =
  scenario_env_def scenario_args_def main_reconcile_def write_data_def file_append_def
  py_trunc_def format_message_def

subsection \<open>The run of the scenario\<close>

lemma main_end_to_end:
  "main (scenario_env False) (scenario_args False) [''out'' \<mapsto> []]
     = Inr [''out'' \<mapsto> ''[bot-cat] Title A | http://a'' @ [newline],
            ''cache'' \<mapsto> pickle_dump (scenario_env False) [(Some ''http://a'', PyInt 1100)]]"
  by (simp add: scenario_simps main_def parse_news_def get_rss_def read_cache_def
        scrub_cache_def write_cache_def)

subsection \<open>Known and new entries\<close>

text \<open>
  Claim C1, as amended. Let \<open>news\<close> be the parsed entries (a dict, so with distinct
  keys) and \<open>key\<close> one of them. Lines 96 to 107 of \<open>main\<close> return. If \<open>key\<close> is in
  the scrubbed cache, the loop over the known keys sets its record to
  \<open>int(time.time()) + ttl\<close> and removes the entry from \<open>news\<close>, the set to emit, and
  the updated cache keeps that record. If \<open>key\<close> is not in the cache, the entry stays
  in the set to emit, and the updated cache holds \<open>int(time.time()) + ttl\<close> for it
  when the run is a \<open>--cache-init\<close> run or the write of its line does not stall.
\<close>

theorem main_reconcile_split:
  assumes "distinct (map fst news)" and "map_of news key = Some attrs"
  shows "\<exists>cache1 news1 news2 cache2 fs2.
           known_loop ev (args_cache_expiration a) (map fst news) cache news = Inr (cache1, news1)
         \<and> main_reconcile ev a news cache fs = Inr (news2, cache2, fs2)
         \<and> (map_of cache key \<noteq> None \<longrightarrow>
              map_of news1 key = None
            \<and> map_of cache1 key
                = Some (PyInt (py_trunc (time_refresh ev key) + args_cache_expiration a))
            \<and> map_of cache2 key
                = Some (PyInt (py_trunc (time_refresh ev key) + args_cache_expiration a)))
         \<and> (map_of cache key = None \<longrightarrow>
              map_of news1 key = Some attrs
            \<and> (args_cache_init a \<or> \<not> write_stalls ev key \<longrightarrow>
                 map_of cache2 key
                   = Some (PyInt (py_trunc (time_update ev) + args_cache_expiration a))))"
proof -
  define ttl where "ttl = args_cache_expiration a"
  define news1 where "news1 = filter (\<lambda>kv. map_of cache (fst kv) = None) news"
  define cache1 where "cache1 = fold (\<lambda>k. AList.update k (PyInt (py_trunc (time_refresh ev k) + ttl)))
                                  (filter (\<lambda>k. map_of cache k \<noteq> None) (map fst news)) cache"
  define news2 where "news2 = (if args_cache_init a then news1
                               else filter (\<lambda>kv. \<not> write_stalls ev (fst kv)) news1)"
  define cache2 where "cache2 = update_loop (py_trunc (time_update ev) + ttl) (map fst news2) cache1"
  have r1: "known_loop ev ttl (map fst news) cache news = Inr (cache1, news1)"
    unfolding ttl_def cache1_def news1_def by (rule main_reconcile_result(1) [OF assms(1)])
  obtain fs2 where r2: "main_reconcile ev a news cache fs = Inr (news2, cache2, fs2)"
    unfolding ttl_def cache2_def cache1_def news2_def news1_def
    using main_reconcile_result(2) [OF assms(1)] by blast
  have in_keys: "key \<in> fst ` set news"
    using assms(2) by (rule key_of_map_of)
  have keys1: "k \<in> fst ` set news1 \<longleftrightarrow> map_of cache k = None \<and> k \<in> fst ` set news" for k
    unfolding news1_def by (rule keys_filter_key [of _ "\<lambda>k. map_of cache k = None"])
  have keys2: "k \<in> fst ` set news2 \<longleftrightarrow>
      (args_cache_init a \<or> \<not> write_stalls ev k) \<and> k \<in> fst ` set news1" for k
    unfolding news2_def using keys_filter_key [of k "\<lambda>k. \<not> write_stalls ev k" news1] by simp
  have look1: "map_of news1 key = (if map_of cache key = None then Some attrs else None)"
    unfolding news1_def
    using assms(2) map_of_filter_key [of "\<lambda>k. map_of cache k = None" news key] by simp
  have look_c1: "map_of cache1 key
      = (if map_of cache key \<noteq> None then Some (PyInt (py_trunc (time_refresh ev key) + ttl)) else None)"
    unfolding cache1_def map_of_fold_update using in_keys by auto
  have look_c2: "map_of cache2 key
      = (if key \<in> fst ` set news2 then Some (PyInt (py_trunc (time_update ev) + ttl))
         else map_of cache1 key)"
    unfolding cache2_def using map_of_update_loop [of _ "map fst news2" cache1 key] by simp
  have known: "map_of cache key \<noteq> None \<longrightarrow>
              map_of news1 key = None
            \<and> map_of cache1 key = Some (PyInt (py_trunc (time_refresh ev key) + ttl))
            \<and> map_of cache2 key = Some (PyInt (py_trunc (time_refresh ev key) + ttl))"
    using look1 look_c1 look_c2 keys2 [of key] keys1 [of key] by auto
  have new: "map_of cache key = None \<longrightarrow>
              map_of news1 key = Some attrs
            \<and> (args_cache_init a \<or> \<not> write_stalls ev key \<longrightarrow>
                 map_of cache2 key = Some (PyInt (py_trunc (time_update ev) + ttl)))"
    using look1 look_c2 keys2 [of key] keys1 [of key] in_keys by auto
  have "known_loop ev ttl (map fst news) cache news = Inr (cache1, news1)
      \<and> main_reconcile ev a news cache fs = Inr (news2, cache2, fs2)
      \<and> (map_of cache key \<noteq> None \<longrightarrow>
              map_of news1 key = None
            \<and> map_of cache1 key = Some (PyInt (py_trunc (time_refresh ev key) + ttl))
            \<and> map_of cache2 key = Some (PyInt (py_trunc (time_refresh ev key) + ttl)))
      \<and> (map_of cache key = None \<longrightarrow>
              map_of news1 key = Some attrs
            \<and> (args_cache_init a \<or> \<not> write_stalls ev key \<longrightarrow>
                 map_of cache2 key = Some (PyInt (py_trunc (time_update ev) + ttl))))"
    using r1 r2 known new by (intro conjI)
  then show ?thesis
    unfolding ttl_def
    by (intro exI [of _ cache1] exI [of _ news1] exI [of _ news2] exI [of _ cache2] exI [of _ fs2])
qed

theorem main_reconcile_split_witness:
  "distinct (map fst [(Some ''u1'', (Some ''T1'', None)), (Some ''u2'', (Some ''T2'', None))])
   \<and> map_of [(Some ''u1'', (Some ''T1'', None)), (Some ''u2'', (Some ''T2'', None))] (Some ''u2'')
       = Some (Some ''T2'', None)
   \<and> map_of [(Some ''u1'', PyInt 1050)] (Some ''u2'') = None
   \<and> known_loop (scenario_env False) 100 [Some ''u1'', Some ''u2'']
        [(Some ''u1'', PyInt 1050)]
        [(Some ''u1'', (Some ''T1'', None)), (Some ''u2'', (Some ''T2'', None))]
       = Inr ([(Some ''u1'', PyInt 1100)], [(Some ''u2'', (Some ''T2'', None))])
   \<and> main_reconcile (scenario_env False) (scenario_args False)
        [(Some ''u1'', (Some ''T1'', None)), (Some ''u2'', (Some ''T2'', None))]
        [(Some ''u1'', PyInt 1050)] [''out'' \<mapsto> []]
       = Inr ([(Some ''u2'', (Some ''T2'', None))],
              [(Some ''u1'', PyInt 1100), (Some ''u2'', PyInt 1100)],
              [''out'' \<mapsto> ''[bot] T2 | u2'' @ [newline]])"
  using main_reconcile_split
    [of "[(Some ''u1'', (Some ''T1'', None)), (Some ''u2'', (Some ''T2'', None))]"
        "Some ''u2''" "(Some ''T2'', None)" "scenario_env False" "scenario_args False"
        "[(Some ''u1'', PyInt 1050)]" "[''out'' \<mapsto> []]"]
  by (simp add: scenario_simps)

text \<open>
  The claim as first stated gives every new entry a cache record. With a write that
  stalls, \<open>u2\<close> is parsed, is not in the cache, and has no record in the updated cache.
\<close>

theorem main_reconcile_split_counterexample:
  "map_of [(Some ''u1'', (Some ''T1'', None)), (Some ''u2'', (Some ''T2'', None))] (Some ''u2'')
       = Some (Some ''T2'', None)
   \<and> map_of [(Some ''u1'', PyInt 1050)] (Some ''u2'') = None
   \<and> main_reconcile (scenario_env True) (scenario_args False)
        [(Some ''u1'', (Some ''T1'', None)), (Some ''u2'', (Some ''T2'', None))]
        [(Some ''u1'', PyInt 1050)] [''out'' \<mapsto> []]
       = Inr ([], [(Some ''u1'', PyInt 1100)], [''out'' \<mapsto> []])
   \<and> map_of [(Some ''u1'', PyInt 1100)] (Some ''u2'') = None"
  by (simp add: scenario_simps)

subsection \<open>The cache-init gate\<close>

text \<open>
  Claim C5, as amended. With \<open>--cache-init\<close> the run leaves the files as they are
  (nothing reaches the output), and the updated cache holds \<open>int(time.time()) + ttl\<close>
  for every parsed url that was not in the cache. If no write of such an entry stalls,
  the run without the flag returns the same \<open>news\<close> and the same cache.
\<close>

theorem cache_init_gate:
  assumes "distinct (map fst news)"
  shows "\<exists>news2 cache2.
           main_reconcile ev (a\<lparr>args_cache_init := True\<rparr>) news cache fs = Inr (news2, cache2, fs)
         \<and> (\<forall>key. map_of news key \<noteq> None \<and> map_of cache key = None \<longrightarrow>
               map_of cache2 key
                 = Some (PyInt (py_trunc (time_update ev) + args_cache_expiration a)))
         \<and> ((\<forall>key. map_of news key \<noteq> None \<and> map_of cache key = None \<longrightarrow> \<not> write_stalls ev key) \<longrightarrow>
              (\<exists>fs2. main_reconcile ev (a\<lparr>args_cache_init := False\<rparr>) news cache fs
                        = Inr (news2, cache2, fs2)))"
proof -
  define ttl where "ttl = args_cache_expiration a"
  define news1 where "news1 = filter (\<lambda>kv. map_of cache (fst kv) = None) news"
  define cache1 where "cache1 = fold (\<lambda>k. AList.update k (PyInt (py_trunc (time_refresh ev k) + ttl)))
                                  (filter (\<lambda>k. map_of cache k \<noteq> None) (map fst news)) cache"
  define cache2 where "cache2 = update_loop (py_trunc (time_update ev) + ttl) (map fst news1) cache1"
  have init: "main_reconcile ev (a\<lparr>args_cache_init := True\<rparr>) news cache fs = Inr (news1, cache2, fs)"
    using main_reconcile_result(2) [OF assms, of ev "a\<lparr>args_cache_init := True\<rparr>" cache fs]
    by (simp add: ttl_def news1_def cache1_def cache2_def)
  have keys1: "k \<in> fst ` set news1 \<longleftrightarrow> map_of cache k = None \<and> k \<in> fst ` set news" for k
    unfolding news1_def by (rule keys_filter_key [of _ "\<lambda>k. map_of cache k = None"])
  have recorded: "map_of cache2 key = Some (PyInt (py_trunc (time_update ev) + ttl))"
    if "map_of news key \<noteq> None \<and> map_of cache key = None" for key
  proof -
    from that obtain v where "map_of news key = Some v" by blast
    then have "key \<in> fst ` set news" by (rule key_of_map_of)
    with that keys1 [of key] have "key \<in> fst ` set news1" by blast
    then show ?thesis unfolding cache2_def by (simp add: map_of_update_loop)
  qed
  have same: "\<exists>fs2. main_reconcile ev (a\<lparr>args_cache_init := False\<rparr>) news cache fs
                        = Inr (news1, cache2, fs2)"
    if quiet: "\<forall>key. map_of news key \<noteq> None \<and> map_of cache key = None \<longrightarrow> \<not> write_stalls ev key"
  proof -
    have "\<not> write_stalls ev (fst kv)" if "kv \<in> set news1" for kv
    proof -
      from that have "fst kv \<in> fst ` set news1" by simp
      then have new: "map_of cache (fst kv) = None" and "fst kv \<in> fst ` set news"
        by (simp_all add: keys1)
      then have "map_of news (fst kv) \<noteq> None" by (intro map_of_key_notNone)
      with new show ?thesis using quiet [rule_format, of "fst kv"] by simp
    qed
    then have "filter (\<lambda>kv. \<not> write_stalls ev (fst kv)) news1 = news1"
      by (simp add: filter_id_conv)
    then show ?thesis
      using main_reconcile_result(2) [OF assms, of ev "a\<lparr>args_cache_init := False\<rparr>" cache fs]
      by (simp add: ttl_def news1_def cache1_def cache2_def)
  qed
  have "main_reconcile ev (a\<lparr>args_cache_init := True\<rparr>) news cache fs = Inr (news1, cache2, fs)
         \<and> (\<forall>key. map_of news key \<noteq> None \<and> map_of cache key = None \<longrightarrow>
               map_of cache2 key = Some (PyInt (py_trunc (time_update ev) + ttl)))
         \<and> ((\<forall>key. map_of news key \<noteq> None \<and> map_of cache key = None \<longrightarrow> \<not> write_stalls ev key) \<longrightarrow>
              (\<exists>fs2. main_reconcile ev (a\<lparr>args_cache_init := False\<rparr>) news cache fs
                        = Inr (news1, cache2, fs2)))"
    using init recorded same by (intro conjI allI impI)
  then show ?thesis
    unfolding ttl_def by (intro exI [of _ news1] exI [of _ cache2])
qed

theorem cache_init_gate_witness:
  "distinct (map fst [(Some ''u3'', (Some ''T3'', None))])
   \<and> main_reconcile (scenario_env False) (scenario_args True)
        [(Some ''u3'', (Some ''T3'', None))] [] [''out'' \<mapsto> []]
       = Inr ([(Some ''u3'', (Some ''T3'', None))], [(Some ''u3'', PyInt 1100)], [''out'' \<mapsto> []])
   \<and> main_reconcile (scenario_env False) (scenario_args False)
        [(Some ''u3'', (Some ''T3'', None))] [] [''out'' \<mapsto> []]
       = Inr ([(Some ''u3'', (Some ''T3'', None))], [(Some ''u3'', PyInt 1100)],
              [''out'' \<mapsto> ''[bot] T3 | u3'' @ [newline]])"
  using cache_init_gate
    [of "[(Some ''u3'', (Some ''T3'', None))]" "scenario_env False" "scenario_args False"
        "[]" "[''out'' \<mapsto> []]"]
  by (simp add: scenario_simps)

text \<open>
  The claim as first stated makes the two caches equal in every run. When the write
  stalls, the run with the flag records \<open>u3\<close> and the run without it does not.
\<close>

theorem cache_init_gate_counterexample:
  "main_reconcile (scenario_env True) (scenario_args True)
        [(Some ''u3'', (Some ''T3'', None))] [] [''out'' \<mapsto> []]
       = Inr ([(Some ''u3'', (Some ''T3'', None))], [(Some ''u3'', PyInt 1100)], [''out'' \<mapsto> []])
   \<and> main_reconcile (scenario_env True) (scenario_args False)
        [(Some ''u3'', (Some ''T3'', None))] [] [''out'' \<mapsto> []]
       = Inr ([], [], [''out'' \<mapsto> []])"
  by (simp add: scenario_simps)

subsection \<open>The parsed entries form a dict\<close>

lemma parse_loop_distinct:
  "distinct (map fst news) \<Longrightarrow> distinct (map fst (parse_loop entries news))"
  by (induction entries arbitrary: news) (simp_all add: distinct_update)

text \<open>The dict \<open>news\<close> that \<open>main\<close> builds from the feeds has distinct keys.\<close>

lemma fetch_loop_distinct:
  "fetch_loop ev timeout rss_urls news = Inr news' \<Longrightarrow> distinct (map fst news)
     \<Longrightarrow> distinct (map fst news')"
  by (induction rss_urls arbitrary: news)
     (auto simp: parse_news_def parse_loop_distinct split: option.splits if_splits)

subsection \<open>A write that stalls\<close>

text \<open>
  Claim C6, as amended. Take a run of \<open>main\<close> without \<open>--cache-init\<close> that gets its
  feeds, reads and scrubs its cache, and in which the write of a parsed entry that is
  not in the scrubbed cache stalls. The run goes on to its end and persists the updated
  cache with \<open>write_cache\<close>; the entry is gone from \<open>news\<close>, and the updated cache
  holds no record for its url.
\<close>

theorem write_stall_drops_entry:
  assumes "0 \<le> args_cache_expiration a"
    and "fs (args_output a) \<noteq> None"
    and "fetch_loop ev (args_rss_http_timeout a) (args_rss_urls a) [] = Inr news"
    and "read_cache ev fs (args_cache a) = Inr cache0"
    and "scrub_cache (time_scrub ev) cache0 = Inr cache"
    and "map_of news key = Some attrs"
    and "map_of cache key = None"
    and "\<not> args_cache_init a"
    and "write_stalls ev key"
  shows "\<exists>news2 cache2 fs2.
           main_reconcile ev a news cache fs = Inr (news2, cache2, fs2)
         \<and> main ev a fs = Inr (write_cache ev cache2 (args_cache a) fs2)
         \<and> map_of news2 key = None
         \<and> map_of cache2 key = None"
proof -
  have d: "distinct (map fst news)"
    using fetch_loop_distinct [OF assms(3)] by simp
  define ttl where "ttl = args_cache_expiration a"
  define news1 where "news1 = filter (\<lambda>kv. map_of cache (fst kv) = None) news"
  define cache1 where "cache1 = fold (\<lambda>k. AList.update k (PyInt (py_trunc (time_refresh ev k) + ttl)))
                                  (filter (\<lambda>k. map_of cache k \<noteq> None) (map fst news)) cache"
  define news2 where "news2 = filter (\<lambda>kv. \<not> write_stalls ev (fst kv)) news1"
  define cache2 where "cache2 = update_loop (py_trunc (time_update ev) + ttl) (map fst news2) cache1"
  obtain fs2 where run: "main_reconcile ev a news cache fs = Inr (news2, cache2, fs2)"
    using main_reconcile_result(2) [OF d, of ev a cache fs] assms(8)
    by (simp add: ttl_def news1_def cache1_def news2_def cache2_def)
  have gone: "map_of news2 key = None"
    unfolding news2_def news1_def filter_filter
    using assms(9)
      map_of_filter_key [of "\<lambda>k. map_of cache k = None \<and> \<not> write_stalls ev k" news key]
    by (simp add: conj_commute)
  have "key \<notin> fst ` set news2"
    using gone map_of_key_notNone [of key news2] by auto
  moreover have "key \<notin> set (filter (\<lambda>k. map_of cache k \<noteq> None) (map fst news))"
    using assms(7) by simp
  ultimately have absent: "map_of cache2 key = None"
    unfolding cache2_def cache1_def
    using assms(7) by (simp add: map_of_update_loop map_of_fold_update)
  have "news \<noteq> []"
    using assms(6) by auto
  then have whole: "main ev a fs = Inr (write_cache ev cache2 (args_cache a) fs2)"
    using assms(1,2,3,4,5) run by (simp add: main_def)
  have "main_reconcile ev a news cache fs = Inr (news2, cache2, fs2)
         \<and> main ev a fs = Inr (write_cache ev cache2 (args_cache a) fs2)
         \<and> map_of news2 key = None
         \<and> map_of cache2 key = None"
    using run whole gone absent by (intro conjI)
  then show ?thesis
    by (intro exI [of _ news2] exI [of _ cache2] exI [of _ fs2])
qed

theorem write_stall_drops_entry_witness:
  "0 \<le> args_cache_expiration (scenario_args False)
   \<and> [''out'' \<mapsto> []] (args_output (scenario_args False)) \<noteq> None
   \<and> fetch_loop
        ((scenario_env False)
           \<lparr>feed_parse := (\<lambda>data. [\<lparr>link = Some ''http://a'', title = Some ''Title A'', category = Some ''cat''\<rparr>,
                                   \<lparr>link = Some ''http://b'', title = Some ''Title B'', category = None\<rparr>]),
            write_stalls := (\<lambda>url. url = Some ''http://a'')\<rparr>)
        (args_rss_http_timeout (scenario_args False)) (args_rss_urls (scenario_args False)) []
       = Inr [(Some ''http://a'', (Some ''Title A'', Some ''cat'')),
              (Some ''http://b'', (Some ''Title B'', None))]
   \<and> scrub_cache 1000 [] = Inr []
   \<and> main
        ((scenario_env False)
           \<lparr>feed_parse := (\<lambda>data. [\<lparr>link = Some ''http://a'', title = Some ''Title A'', category = Some ''cat''\<rparr>,
                                   \<lparr>link = Some ''http://b'', title = Some ''Title B'', category = None\<rparr>]),
            write_stalls := (\<lambda>url. url = Some ''http://a'')\<rparr>)
        (scenario_args False) [''out'' \<mapsto> []]
       = Inr [''out'' \<mapsto> ''[bot] Title B | http://b'' @ [newline],
              ''cache'' \<mapsto> pickle_dump (scenario_env False) [(Some ''http://b'', PyInt 1100)]]
   \<and> map_of [(Some ''http://b'', PyInt 1100)] (Some ''http://a'') = None"
  using write_stall_drops_entry
    [of "scenario_args False" "[''out'' \<mapsto> []]"
        "(scenario_env False)
           \<lparr>feed_parse := (\<lambda>data. [\<lparr>link = Some ''http://a'', title = Some ''Title A'', category = Some ''cat''\<rparr>,
                                   \<lparr>link = Some ''http://b'', title = Some ''Title B'', category = None\<rparr>]),
            write_stalls := (\<lambda>url. url = Some ''http://a'')\<rparr>"
        "[(Some ''http://a'', (Some ''Title A'', Some ''cat'')),
          (Some ''http://b'', (Some ''Title B'', None))]"
        "[]" "[]" "Some ''http://a''" "(Some ''Title A'', Some ''cat'')"]
  by (simp add: scenario_simps main_def parse_news_def get_rss_def read_cache_def
        scrub_cache_def write_cache_def)

text \<open>
  The claim as first stated gives the url of the stalled entry a cache record in the
  persisted cache. In the scenario with a stalling write the updated cache is empty,
  and \<open>main\<close> persists the empty cache.
\<close>

theorem write_stall_counterexample:
  "write_stalls (scenario_env True) (Some ''http://a'')
   \<and> main_reconcile (scenario_env True) (scenario_args False)
        [(Some ''http://a'', (Some ''Title A'', Some ''cat''))] [] [''out'' \<mapsto> []]
       = Inr ([], [], [''out'' \<mapsto> []])
   \<and> main (scenario_env True) (scenario_args False) [''out'' \<mapsto> []]
       = Inr [''out'' \<mapsto> [], ''cache'' \<mapsto> pickle_dump (scenario_env True) []]"
  by (simp add: scenario_simps main_def parse_news_def get_rss_def read_cache_def
        scrub_cache_def write_cache_def)

section \<open>Parsing\<close>

lemma parse_loop_step:
  "parse_loop (e # entries) news
     = parse_loop entries (AList.update (link e) (title e, category e) news)"
  by simp

lemma parse_loop_append:
  "parse_loop (xs @ ys) news = parse_loop ys (parse_loop xs news)"
  by (induction xs arbitrary: news) simp_all

lemma parse_loop_keys:
  "fst ` set (parse_loop entries news) = fst ` set news \<union> link ` set entries"
  by (induction entries arbitrary: news) (auto simp: dom_update)

text \<open>
  Claim C8. The test \<open>not 'link' and not 'title'\<close> is false whatever the entry holds,
  so no entry is skipped: the keys of \<open>news\<close> after \<open>parse_news\<close> are its keys before
  together with the link of every entry of the feed, the last entry parsed is stored
  under its link with its title and category, and an entry with neither link nor
  title is stored under the key \<open>None\<close>.
\<close>

theorem parse_news_keeps_every_entry:
  "(\<not> truthy (Some ''link'') \<and> \<not> truthy (Some ''title'')) = False
   \<and> fst ` set (parse_news ev data news) = fst ` set news \<union> link ` set (feed_parse ev data)
   \<and> map_of (parse_loop (entries @ [e]) news) (link e) = Some (title e, category e)
   \<and> map_of (parse_loop [\<lparr>link = None, title = None, category = c\<rparr>] news) None = Some (None, c)"
  by (simp add: parse_news_def parse_loop_keys parse_loop_append update_conv')

theorem parse_news_keeps_every_entry_witness:
  "parse_news (scenario_env False) ''<rss/>'' []
     = [(Some ''http://a'', (Some ''Title A'', Some ''cat''))]
   \<and> parse_loop [\<lparr>link = None, title = None, category = None\<rparr>] []
     = [(None, (None, None))]"
  using parse_news_keeps_every_entry [of "scenario_env False" "''<rss/>''" "[]" "[]"
      "\<lparr>link = None, title = None, category = None\<rparr>" None]
  by (simp add: parse_news_def scenario_env_def)

section \<open>Persistence\<close>

text \<open>
  Claim C7. If \<open>pickle.load\<close> gives back what \<open>pickle.dump\<close> was given, then for a
  non-empty path \<open>read_cache\<close> after \<open>write_cache\<close> returns the saved mapping.
  \<open>read_cache\<close> with no path or the empty path returns the empty mapping, and
  \<open>write_cache\<close> with no path or the empty path leaves every file as it is.
\<close>

theorem cache_round_trip:
  assumes "pickle_load ev (pickle_dump ev data) = Inr data" and "path \<noteq> []"
  shows "read_cache ev (write_cache ev data (Some path) fs) (Some path) = Inr data
       \<and> read_cache ev fs None = Inr []
       \<and> read_cache ev fs (Some []) = Inr []
       \<and> write_cache ev data None fs = fs
       \<and> write_cache ev data (Some []) fs = fs"
  using assms by (simp add: read_cache_def write_cache_def)

theorem cache_round_trip_witness:
  "pickle_load (scenario_env False) (pickle_dump (scenario_env False) [(Some ''http://a'', PyInt 1100)])
     = Inr [(Some ''http://a'', PyInt 1100)]
   \<and> ''cache'' \<noteq> []
   \<and> read_cache (scenario_env False)
        (write_cache (scenario_env False) [(Some ''http://a'', PyInt 1100)] (Some ''cache'')
           [''out'' \<mapsto> []])
        (Some ''cache'')
       = Inr [(Some ''http://a'', PyInt 1100)]
   \<and> read_cache (scenario_env False) [''out'' \<mapsto> []] None = Inr []
   \<and> write_cache (scenario_env False) [(Some ''http://a'', PyInt 1100)] None [''out'' \<mapsto> []]
       = [''out'' \<mapsto> []]"
proof -
  have rt: "pickle_load (scenario_env False)
              (pickle_dump (scenario_env False) [(Some ''http://a'', PyInt 1100)])
            = Inr [(Some ''http://a'', PyInt 1100)]"
    by (simp add: scenario_env_def)
  have p: "''cache'' \<noteq> []" by simp
  show ?thesis
    using cache_round_trip [OF rt p, of "[''out'' \<mapsto> []]"] rt by simp
qed

end
